theory Spec2Isabelle
  imports Main "HOL-Library.Sublist" "HOL-Library.Monad_Syntax"
begin

section \<open>JavaScript strings and the String methods the engine calls\<close>

text \<open>
  The source file is \<^verbatim>\<open>src/utilities.ts\<close>. A JavaScript string is a sequence of code
  units; it is modelled as a \<^typ>\<open>string\<close>, the code units 0 to 255. Every literal of the
  source lies in that range; of its character classes (whitespace, line terminators) the
  members in that range are modelled.
\<close>

definition LF :: char where
  "LF = CHR 0x0A"

definition CR :: char where
  "CR = CHR 0x0D"

text \<open>
  \<^verbatim>\<open>String.prototype.trim\<close> strips WhiteSpace and LineTerminator code units from both
  ends. In the modelled range these are TAB, LF, VT, FF, CR, SP and NBSP.
\<close>

definition isWhiteSpace :: "char \<Rightarrow> bool" where
  "isWhiteSpace c = (c \<in> set [CHR 0x09, CHR 0x0A, CHR 0x0B, CHR 0x0C, CHR 0x0D, CHR 0x20, CHR 0xA0])"

definition trim :: "string \<Rightarrow> string" where
  "trim s = rev (dropWhile isWhiteSpace (rev (dropWhile isWhiteSpace s)))"

text \<open>\<^verbatim>\<open>s.startsWith(p)\<close> and \<^verbatim>\<open>s.includes(p)\<close>.\<close>

definition startsWith :: "string \<Rightarrow> string \<Rightarrow> bool" where
  "startsWith s p = prefix p s"

fun includesStr :: "string \<Rightarrow> string \<Rightarrow> bool" where
  "includesStr [] p = (p = [])"
| "includesStr (c # cs) p = (prefix p (c # cs) \<or> includesStr cs p)"

text \<open>
  \<^verbatim>\<open>s.split('\n')\<close>: the pieces between the LF code units, in order; never an empty
  array (the empty string gives one empty piece), so the last case of \<open>split_nl\<close> is never
  taken. \<^verbatim>\<open>a.join('\n')\<close> is its inverse.
\<close>

fun split_nl :: "string \<Rightarrow> string list" where
  "split_nl [] = [[]]"
| "split_nl (c # cs) =
     (if c = LF then [] # split_nl cs
      else (case split_nl cs of l # ls \<Rightarrow> (c # l) # ls | [] \<Rightarrow> [[c]]))"

fun join_nl :: "string list \<Rightarrow> string" where
  "join_nl [] = []"
| "join_nl [l] = l"
| "join_nl (l # ls) = l @ LF # join_nl ls"

text \<open>
  The regular-expression atoms of the source: \<^verbatim>\<open>\d\<close> is an ASCII digit; \<^verbatim>\<open>.\<close> is any
  code unit but a line terminator (LF and CR in the modelled range).
\<close>

definition isDigit :: "char \<Rightarrow> bool" where
  "isDigit c = (c \<in> set ''0123456789'')"

definition isLineTerminator :: "char \<Rightarrow> bool" where
  "isLineTerminator c = (c = LF \<or> c = CR)"

section \<open>normalizeLineEndings\<close>


section \<open>autoFixSpaces\<close>

text \<open>
  The alternatives of the anchored regular expression
  \<^verbatim>\<open>/^(\+|-| |@|diff |index |---|(\+\+\+)|@@|new file|deleted file|old mode|new mode|similarity index|copy |rename |binary |\\)/\<close>,
  in the source's order. The last one is a single backslash.
\<close>

definition structuralPrefixes :: "string list" where
  "structuralPrefixes =
     [''+'', ''-'', '' '', ''@'', ''diff '', ''index '', ''---'', ''+++'', ''@@'',
      ''new file'', ''deleted file'', ''old mode'', ''new mode'', ''similarity index'',
      ''copy '', ''rename '', ''binary '', [CHR 0x5C]]"

definition structuralTest :: "string \<Rightarrow> bool" where
  "structuralTest line = list_ex (\<lambda>p. prefix p line) structuralPrefixes"

text \<open>The arrow function given to \<^verbatim>\<open>map\<close>.\<close>

definition fixLine :: "string \<Rightarrow> string" where
  "fixLine line =
     (if trim line \<noteq> [] \<and> \<not> structuralTest line then CHR '' '' # line else line)"

definition autoFixSpaces :: "string \<Rightarrow> string" where
  "autoFixSpaces diffText = join_nl (map fixLine (split_nl diffText))"

section \<open>addMissingHeaders\<close>

text \<open>
  \<^verbatim>\<open>diffText.match(/\+\+\+ b\/(.+)/)\<close>: the leftmost position where \<^verbatim>\<open>+++ b/\<close> is followed
  by at least one code unit that is not a line terminator; the group takes the longest run
  of such code units. The result is the group, or \<open>None\<close> for \<^verbatim>\<open>null\<close>.
\<close>

fun fileMatch :: "string \<Rightarrow> string option" where
  "fileMatch [] = None"
| "fileMatch (c # cs) =
     (if prefix ''+++ b/'' (c # cs)
         \<and> takeWhile (\<lambda>x. \<not> isLineTerminator x) (drop 6 (c # cs)) \<noteq> []
      then Some (takeWhile (\<lambda>x. \<not> isLineTerminator x) (drop 6 (c # cs)))
      else fileMatch cs)"

definition addMissingHeaders :: "string \<Rightarrow> string" where
  "addMissingHeaders diffText =
     (if \<not> startsWith (trim diffText) ''diff '' then
        (let filePath = (case fileMatch diffText of Some p \<Rightarrow> p | None \<Rightarrow> ''unknown-file'');
             header = join_nl [''diff --git a/'' @ filePath @ '' b/'' @ filePath,
                            ''--- a/'' @ filePath,
                            ''+++ b/'' @ filePath]
         in if \<not> includesStr diffText ''--- '' \<and> \<not> includesStr diffText ''+++ ''
            then header @ [LF] @ diffText
            else if \<not> includesStr diffText ''--- '' \<and> includesStr diffText ''+++ ''
            then ''diff --git a/'' @ filePath @ '' b/'' @ filePath @ [LF]
                   @ ''--- a/'' @ filePath @ [LF] @ diffText
            else diffText)
      else diffText)"

section \<open>normalizeDiff\<close>


section \<open>adjustHunkHeaders\<close>

text \<open>
  Pieces of a regular expression matched at the start of a string, each returning what it
  captured and the rest of the string: a literal, \<^verbatim>\<open>(\d+)\<close> (greedy, at least one digit),
  and the optional group \<^verbatim>\<open>(?:,(\d+))?\<close>.
\<close>

definition expect :: "string \<Rightarrow> string \<Rightarrow> string option" where
  "expect p s = (if prefix p s then Some (drop (length p) s) else None)"

definition takeDigits :: "string \<Rightarrow> (string \<times> string) option" where
  "takeDigits s =
     (if takeWhile isDigit s = [] then None
      else Some (takeWhile isDigit s, dropWhile isDigit s))"

definition optCount :: "string \<Rightarrow> string option \<times> string" where
  "optCount s =
     (case expect '','' s of
        None \<Rightarrow> (None, s)
      | Some r \<Rightarrow> (case takeDigits r of None \<Rightarrow> (None, s) | Some (ds, r') \<Rightarrow> (Some ds, r')))"

text \<open>
  The match array of \<^verbatim>\<open>/^@@ -(\d+)(?:,(\d+))? \+(\d+)(?:,(\d+))? @@(.*)$/\<close>: groups 1 to 5.
  Groups 2 and 4 are \<^verbatim>\<open>undefined\<close> when their optional part is absent.
\<close>

record hunkGroups =
  oldStart :: string
  oldCount :: "string option"
  newStart :: string
  newCount :: "string option"
  trailing :: string

definition hunkMatch :: "string \<Rightarrow> hunkGroups option" where
  "hunkMatch line =
     do {
       r1 \<leftarrow> expect ''@@ -'' line;
       (g1, r2) \<leftarrow> takeDigits r1;
       (g2, r3) \<leftarrow> Some (optCount r2);
       r4 \<leftarrow> expect '' +'' r3;
       (g3, r5) \<leftarrow> takeDigits r4;
       (g4, r6) \<leftarrow> Some (optCount r5);
       g5 \<leftarrow> expect '' @@'' r6;
       if list_ex isLineTerminator g5 then None
       else Some \<lparr>oldStart = g1, oldCount = g2, newStart = g3, newCount = g4, trailing = g5\<rparr>
     }"

text \<open>
  A counter converted by a template literal: its decimal digits. The counters count lines
  of one string, far below the range where a JavaScript number stops being an exact
  integer, so they are natural numbers here.
\<close>

fun toString :: "nat \<Rightarrow> string" where
  "toString n =
     (if n < 10 then [''0123456789'' ! n]
      else toString (n div 10) @ [''0123456789'' ! (n mod 10)])"

declare toString.simps [simp del]

text \<open>
  Reading \<^verbatim>\<open>lines[i]\<close> past the end gives \<^verbatim>\<open>undefined\<close>, and the method called on it
  next throws a TypeError.
\<close>

datatype error = TypeError

definition lineAt :: "string list \<Rightarrow> nat \<Rightarrow> error + string" where
  "lineAt lines i = (if i < length lines then Inr (lines ! i) else Inl TypeError)"

text \<open>The inner \<^verbatim>\<open>while (j < lines.length)\<close> loop, with its \<^verbatim>\<open>break\<close>.\<close>

function countLoop :: "string list \<Rightarrow> nat \<Rightarrow> nat \<times> nat \<Rightarrow> error + nat \<times> nat" where
  "countLoop lines j (oldLines, newLines) =
     (if j < length lines then
        (case lineAt lines j of
           Inl e \<Rightarrow> Inl e
         | Inr nextLine \<Rightarrow>
             if startsWith nextLine ''diff --git'' \<or> startsWith nextLine ''@@ ''
             then Inr (oldLines, newLines)
             else countLoop lines (j + 1)
                    (if startsWith nextLine ''-'' then (oldLines + 1, newLines)
                     else if startsWith nextLine ''+'' then (oldLines, newLines + 1)
                     else if startsWith nextLine '' '' then (oldLines + 1, newLines + 1)
                     else (oldLines, newLines)))
      else Inr (oldLines, newLines))"
  by pat_completeness auto
termination
  by (relation "measure (\<lambda>(lines, j, _). length lines - j)") auto

declare countLoop.simps [simp del]

text \<open>The header rebuilt by the template literal.\<close>

definition rebuild :: "hunkGroups \<Rightarrow> nat \<times> nat \<Rightarrow> string" where
  "rebuild m counts =
     ''@@ -'' @ oldStart m @ '','' @ toString (fst counts)
       @ '' +'' @ newStart m @ '','' @ toString (snd counts) @ '' @@'' @ trailing m"

text \<open>The outer \<^verbatim>\<open>for (let i = 0; i < lines.length; i++)\<close> loop.\<close>

function adjustLoop :: "string list \<Rightarrow> nat \<Rightarrow> string list \<Rightarrow> error + string list" where
  "adjustLoop lines i result =
     (if i < length lines then
        (case lineAt lines i of
           Inl e \<Rightarrow> Inl e
         | Inr line \<Rightarrow>
             (case hunkMatch line of
                Some m \<Rightarrow>
                  (case countLoop lines (i + 1) (0, 0) of
                     Inl e \<Rightarrow> Inl e
                   | Inr counts \<Rightarrow> adjustLoop lines (i + 1) (result @ [rebuild m counts]))
              | None \<Rightarrow> adjustLoop lines (i + 1) (result @ [line])))
      else Inr result)"
  by pat_completeness auto
termination
  by (relation "measure (\<lambda>(lines, i, _). length lines - i)") auto

declare adjustLoop.simps [simp del]

definition adjustHunkHeaders :: "string \<Rightarrow> error + string" where
  "adjustHunkHeaders diffText =
     (case adjustLoop (split_nl diffText) 0 [] of
        Inl e \<Rightarrow> Inl e
      | Inr result \<Rightarrow> Inr (join_nl result))"

section \<open>extractFileNamesFromHeader\<close>

text \<open>
  \<^verbatim>\<open>/^diff --git a\/(.*) b\/(.*)$/\<close>: the first group is greedy, so it ends at the last
  \<^verbatim>\<open> b/\<close> of the line; no group crosses a line terminator and \<^verbatim>\<open>$\<close> is the end of input.
  \<open>splitLast sep s\<close> cuts \<open>s\<close> at the last occurrence of \<open>sep\<close>.
\<close>

fun splitLast :: "string \<Rightarrow> string \<Rightarrow> (string \<times> string) option" where
  "splitLast sep [] = (if sep = [] then Some ([], []) else None)"
| "splitLast sep (c # cs) =
     (case splitLast sep cs of
        Some (a, b) \<Rightarrow> Some (c # a, b)
      | None \<Rightarrow> (if prefix sep (c # cs) then Some ([], drop (length sep) (c # cs)) else None))"

definition gitHeaderMatch :: "string \<Rightarrow> (string \<times> string) option" where
  "gitHeaderMatch diffHeader =
     do {
       r \<leftarrow> expect ''diff --git a/'' diffHeader;
       if list_ex isLineTerminator r then None else splitLast '' b/'' r
     }"

record fileNames =
  oldFile :: "string option"
  newFile :: "string option"

text \<open>The path sanitizer is imported from another module; it is a parameter here.\<close>

definition extractFileNamesFromHeader :: "(string \<Rightarrow> string) \<Rightarrow> string \<Rightarrow> fileNames" where
  "extractFileNamesFromHeader sanitizePath diffHeader =
     (case gitHeaderMatch diffHeader of
        Some (g1, g2) \<Rightarrow> \<lparr>oldFile = Some (sanitizePath g1), newFile = Some (sanitizePath g2)\<rparr>
      | None \<Rightarrow> \<lparr>oldFile = None, newFile = None\<rparr>)"

section \<open>isUnifiedDiff\<close>

text \<open>
  \<^verbatim>\<open>/@@ -\d+,\d+ \+\d+,\d+ @@/.test(text)\<close>: the pattern matched at the start of a string, then
  tried at every position from the left.
\<close>

definition strictHunkAt :: "string \<Rightarrow> bool" where
  "strictHunkAt s =
     (do {
        r1 \<leftarrow> expect ''@@ -'' s;
        (g1, r2) \<leftarrow> takeDigits r1;
        r3 \<leftarrow> expect '','' r2;
        (g2, r4) \<leftarrow> takeDigits r3;
        r5 \<leftarrow> expect '' +'' r4;
        (g3, r6) \<leftarrow> takeDigits r5;
        r7 \<leftarrow> expect '','' r6;
        (g4, r8) \<leftarrow> takeDigits r7;
        expect '' @@'' r8
      } \<noteq> None)"

fun hasHunkHeader :: "string \<Rightarrow> bool" where
  "hasHunkHeader [] = False"
| "hasHunkHeader (c # cs) = (strictHunkAt (c # cs) \<or> hasHunkHeader cs)"

text \<open>\<^verbatim>\<open>/^[+\-]/.test(line.trim())\<close>, the predicate given to \<^verbatim>\<open>filter\<close>.\<close>

definition plusMinusTest :: "string \<Rightarrow> bool" where
  "plusMinusTest line = (prefix ''+'' (trim line) \<or> prefix ''-'' (trim line))"

definition isUnifiedDiff :: "string \<Rightarrow> bool" where
  "isUnifiedDiff text =
     (if text = [] \<or> trim text = [] then False
      else
        (let hasDiffMarker = (includesStr text ''diff --git'' \<or> includesStr text ''--- ''
                                \<or> includesStr text ''+++ '');
             lines = split_nl text;
             plusMinusLines = filter plusMinusTest lines;
             hasMultiplePlusMinusLines = (length plusMinusLines \<ge> 2)
         in hasDiffMarker \<or> hasHunkHeader text \<or> hasMultiplePlusMinusLines))"

section \<open>Notions used to state the properties\<close>

text \<open>
  The two loops of \<open>adjustHunkHeaders\<close> read as functions on the list of the lines that are
  left: \<open>countBody\<close> is the look-ahead from the line after a header, \<open>adjustLines\<close> is the
  outer loop. Both are proved equal to the loops below.
\<close>

fun countBody :: "string list \<Rightarrow> nat \<times> nat \<Rightarrow> nat \<times> nat" where
  "countBody [] acc = acc"
| "countBody (nextLine # rest) (oldLines, newLines) =
     (if startsWith nextLine ''diff --git'' \<or> startsWith nextLine ''@@ ''
      then (oldLines, newLines)
      else countBody rest
             (if startsWith nextLine ''-'' then (oldLines + 1, newLines)
              else if startsWith nextLine ''+'' then (oldLines, newLines + 1)
              else if startsWith nextLine '' '' then (oldLines + 1, newLines + 1)
              else (oldLines, newLines)))"

fun adjustLines :: "string list \<Rightarrow> string list" where
  "adjustLines [] = []"
| "adjustLines (line # rest) =
     (case hunkMatch line of
        Some m \<Rightarrow> rebuild m (countBody rest (0, 0))
      | None \<Rightarrow> line) # adjustLines rest"

text \<open>
  The text of a hunk header with given groups, and the condition under which groups are
  those of a match: the starts and the counts are non-empty digit strings and the trailing
  text has no line terminator.
\<close>

definition digits :: "string \<Rightarrow> bool" where
  "digits ds = (ds \<noteq> [] \<and> list_all isDigit ds)"

definition optText :: "string option \<Rightarrow> string" where
  "optText g = (case g of None \<Rightarrow> [] | Some c \<Rightarrow> '','' @ c)"

definition hunkText :: "hunkGroups \<Rightarrow> string" where
  "hunkText m =
     ''@@ -'' @ oldStart m @ optText (oldCount m) @ '' +'' @ newStart m @ optText (newCount m)
       @ '' @@'' @ trailing m"

definition hunkGroupsOk :: "hunkGroups \<Rightarrow> bool" where
  "hunkGroupsOk m =
     (digits (oldStart m) \<and> (case oldCount m of None \<Rightarrow> True | Some c \<Rightarrow> digits c)
      \<and> digits (newStart m) \<and> (case newCount m of None \<Rightarrow> True | Some c \<Rightarrow> digits c)
      \<and> \<not> list_ex isLineTerminator (trailing m))"

text \<open>The number that a string of decimal digits denotes.\<close>

definition decimalValue :: "string \<Rightarrow> nat" where
  "decimalValue ds = foldl (\<lambda>v c. 10 * v + (of_char c - 48)) 0 ds"




section \<open>Lines of a text\<close>

lemma split_nl_not_Nil: "split_nl s \<noteq> []"
  by (induction s) (auto split: list.splits)

lemma split_nl_no_LF: "l \<in> set (split_nl s) \<Longrightarrow> LF \<notin> set l"
  by (induction s arbitrary: l) (auto split: list.splits if_splits)

lemma join_split_nl: "join_nl (split_nl s) = s"
proof (induction s)
  case Nil
  show ?case by simp
next
  case (Cons c cs)
  obtain l ls where sp: "split_nl cs = l # ls"
    using split_nl_not_Nil [of cs] by (cases "split_nl cs") auto
  show ?case
  proof (cases "c = LF")
    case True
    with Cons sp show ?thesis by simp
  next
    case False
    with Cons sp show ?thesis by (cases ls) auto
  qed
qed

lemma split_nl_append_LF: "LF \<notin> set l \<Longrightarrow> split_nl (l @ LF # s) = l # split_nl s"
  by (induction l) auto

lemma split_nl_line: "LF \<notin> set l \<Longrightarrow> split_nl l = [l]"
  by (induction l) auto

lemma split_join_nl:
  "ls \<noteq> [] \<Longrightarrow> \<forall>l\<in>set ls. LF \<notin> set l \<Longrightarrow> split_nl (join_nl ls) = ls"
proof (induction ls rule: join_nl.induct)
  case 1
  then show ?case by simp
next
  case (2 l)
  then show ?case by (simp add: split_nl_line)
next
  case (3 l v va)
  then show ?case by (simp add: split_nl_append_LF)
qed

lemma includesStr_iff: "includesStr s p \<longleftrightarrow> sublist p s"
  by (induction s) (auto simp: sublist_Cons_right)

lemma dropWhile_all_iff: "(\<forall>x\<in>set (dropWhile P s). P x) \<longleftrightarrow> (\<forall>x\<in>set s. P x)"
  by (induction s) auto

lemma trim_Nil_iff: "trim s = [] \<longleftrightarrow> (\<forall>c\<in>set s. isWhiteSpace c)"
  by (simp add: trim_def dropWhile_all_iff)

section \<open>The Context-Space Repairer\<close>

lemma fixLine_no_LF: "LF \<notin> set l \<Longrightarrow> LF \<notin> set (fixLine l)"
  by (simp add: fixLine_def LF_def)

lemma split_nl_autoFixSpaces: "split_nl (autoFixSpaces t) = map fixLine (split_nl t)"
  unfolding autoFixSpaces_def
  by (rule split_join_nl) (auto simp: split_nl_not_Nil dest: split_nl_no_LF fixLine_no_LF)

text \<open>
  Claim C3, as the code has it. \<open>autoFixSpaces\<close> keeps the number and the order of the
  lines. A line that starts with one of the recognised prefixes (\<open>structuralPrefixes\<close>:
  \<^verbatim>\<open>+\<close>, \<^verbatim>\<open>-\<close>, a space, \<^verbatim>\<open>@\<close>, \<^verbatim>\<open>diff \<close>, \<^verbatim>\<open>index \<close>, \<^verbatim>\<open>---\<close>, \<^verbatim>\<open>+++\<close>, \<^verbatim>\<open>@@\<close>, \<^verbatim>\<open>new file\<close>,
  \<^verbatim>\<open>deleted file\<close>, \<^verbatim>\<open>old mode\<close>, \<^verbatim>\<open>new mode\<close>, \<^verbatim>\<open>similarity index\<close>, \<^verbatim>\<open>copy \<close>, \<^verbatim>\<open>rename \<close>,
  \<^verbatim>\<open>binary \<close>, a backslash) is unchanged; a line made of whitespace only, the empty line
  among them, is unchanged; every other line gains exactly one leading space. The claim
  itself promises the space to every other non-empty line, which fails for a line that is
  whitespace only and does not start with a space, such as a single TAB.
\<close>

theorem autoFixSpaces_lines:
  "length (split_nl (autoFixSpaces t)) = length (split_nl t) \<and>
   (\<forall>i < length (split_nl t).
      ((\<exists>p \<in> set structuralPrefixes. prefix p (split_nl t ! i))
          \<longrightarrow> split_nl (autoFixSpaces t) ! i = split_nl t ! i) \<and>
      ((\<forall>c \<in> set (split_nl t ! i). isWhiteSpace c)
          \<longrightarrow> split_nl (autoFixSpaces t) ! i = split_nl t ! i) \<and>
      (\<not> (\<exists>p \<in> set structuralPrefixes. prefix p (split_nl t ! i))
          \<and> \<not> (\<forall>c \<in> set (split_nl t ! i). isWhiteSpace c)
          \<longrightarrow> split_nl (autoFixSpaces t) ! i = CHR '' '' # split_nl t ! i))"
  by (simp add: split_nl_autoFixSpaces fixLine_def structuralTest_def list_ex_iff trim_Nil_iff)

text \<open>The theorem at a text of four lines: a marked line, an unmarked one, a TAB, a marked line.\<close>

theorem autoFixSpaces_lines_witness:
  "length (split_nl (autoFixSpaces (''+a\<newline>foo()\<newline>'' @ [CHR 0x09] @ ''\<newline>-b''))) = 4
   \<and> split_nl (autoFixSpaces (''+a\<newline>foo()\<newline>'' @ [CHR 0x09] @ ''\<newline>-b'')) ! 0 = ''+a''
   \<and> split_nl (autoFixSpaces (''+a\<newline>foo()\<newline>'' @ [CHR 0x09] @ ''\<newline>-b'')) ! 1 = '' foo()''
   \<and> split_nl (autoFixSpaces (''+a\<newline>foo()\<newline>'' @ [CHR 0x09] @ ''\<newline>-b'')) ! 2 = [CHR 0x09]
   \<and> split_nl (autoFixSpaces (''+a\<newline>foo()\<newline>'' @ [CHR 0x09] @ ''\<newline>-b'')) ! 3 = ''-b''"
proof -
  let ?t = "''+a\<newline>foo()\<newline>'' @ [CHR 0x09] @ ''\<newline>-b''"
  have sp: "split_nl ?t = [''+a'', ''foo()'', [CHR 0x09], ''-b'']"
    by (simp add: LF_def)
  note th = autoFixSpaces_lines [of ?t, unfolded sp]
  have l0: "split_nl (autoFixSpaces ?t) ! 0 = ''+a''"
    using th [THEN conjunct2, rule_format, of 0] by (simp add: structuralPrefixes_def)
  have l1: "split_nl (autoFixSpaces ?t) ! 1 = '' foo()''"
    using th [THEN conjunct2, rule_format, of 1]
    by (simp add: structuralPrefixes_def isWhiteSpace_def)
  have l2: "split_nl (autoFixSpaces ?t) ! 2 = [CHR 0x09]"
    using th [THEN conjunct2, rule_format, of 2] by (simp add: isWhiteSpace_def)
  have l3: "split_nl (autoFixSpaces ?t) ! 3 = ''-b''"
    using th [THEN conjunct2, rule_format, of 3] by (simp add: structuralPrefixes_def)
  from th [THEN conjunct1] l0 l1 l2 l3 show ?thesis by simp
qed

text \<open>
  The claim as stated fails: the second line of this text is a single TAB, which is not
  empty and starts with none of the recognised prefixes, and the text is returned as it is.
\<close>

theorem autoFixSpaces_tab_counterexample:
  "[CHR 0x09] \<noteq> []
   \<and> \<not> structuralTest [CHR 0x09]
   \<and> autoFixSpaces (''+a\<newline>'' @ [CHR 0x09] @ ''\<newline>+b'') = ''+a\<newline>'' @ [CHR 0x09] @ ''\<newline>+b''
   \<and> autoFixSpaces (''+a\<newline>'' @ [CHR 0x09] @ ''\<newline>+b'') \<noteq> ''+a\<newline> '' @ [CHR 0x09] @ ''\<newline>+b''"
  by (simp add: autoFixSpaces_def fixLine_def structuralTest_def structuralPrefixes_def
      trim_def isWhiteSpace_def LF_def)

text \<open>
  Claim C10. A line of the input that consists of whitespace only comes out of
  \<open>autoFixSpaces\<close> unchanged: no marker space is put in front of it.
\<close>

theorem autoFixSpaces_whitespace_line:
  "i < length (split_nl t) \<Longrightarrow> \<forall>c \<in> set (split_nl t ! i). isWhiteSpace c
     \<Longrightarrow> split_nl (autoFixSpaces t) ! i = split_nl t ! i"
  by (simp add: split_nl_autoFixSpaces fixLine_def trim_Nil_iff)

theorem autoFixSpaces_whitespace_line_witness:
  "split_nl (autoFixSpaces (''x\<newline>  '' @ [CHR 0x09, CHR 0x0D] @ ''\<newline>y'')) ! 1
     = ''  '' @ [CHR 0x09, CHR 0x0D]"
proof -
  let ?t = "''x\<newline>  '' @ [CHR 0x09, CHR 0x0D] @ ''\<newline>y''"
  have sp: "split_nl ?t = [''x'', ''  '' @ [CHR 0x09, CHR 0x0D], ''y'']"
    by (simp add: LF_def)
  have "split_nl (autoFixSpaces ?t) ! 1 = split_nl ?t ! 1"
    by (rule autoFixSpaces_whitespace_line) (simp_all add: LF_def isWhiteSpace_def)
  then show ?thesis unfolding sp by simp
qed

section \<open>The Header Synthesizer\<close>

lemma dropWhile_append_keep:
  "ys \<noteq> [] \<Longrightarrow> \<not> P (hd ys) \<Longrightarrow> \<exists>zs. dropWhile P (xs @ ys) = zs @ ys"
proof (induction xs)
  case Nil
  then have "dropWhile P ys = ys" by (cases ys) auto
  then show ?case by simp
next
  case (Cons x xs)
  then show ?case by (cases "P x") auto
qed

lemma trim_keeps_prefix:
  assumes "p \<noteq> []" "\<not> isWhiteSpace (hd p)" "\<not> isWhiteSpace (last p)"
  shows "prefix p (trim (p @ r))"
proof -
  from assms have "dropWhile isWhiteSpace (p @ r) = p @ r" by (cases p) auto
  moreover obtain zs where "dropWhile isWhiteSpace (rev r @ rev p) = zs @ rev p"
    using dropWhile_append_keep [of "rev p" isWhiteSpace "rev r"] assms
    by (auto simp: hd_rev)
  ultimately have "trim (p @ r) = p @ rev zs" by (simp add: trim_def)
  then show ?thesis by simp
qed

lemma trim_diff_git: "startsWith (trim (''diff --git a/'' @ r)) ''diff ''"
proof -
  have "prefix ''diff -'' (trim (''diff -'' @ (''-git a/'' @ r)))"
    by (rule trim_keeps_prefix) (simp_all add: isWhiteSpace_def)
  then have "prefix (''diff '' @ ''-'') (trim (''diff --git a/'' @ r))" by simp
  then show ?thesis unfolding startsWith_def by (rule append_prefixD)
qed

lemma prefix_plus_b: "prefix ''+++ b/'' s \<Longrightarrow> prefix ''+++ '' s"
  using append_prefixD [of "''+++ ''" "''b/''" s] by simp

lemma fileMatch_Some_sublist: "fileMatch t = Some p \<Longrightarrow> sublist ''+++ '' t"
proof (induction t)
  case Nil
  then show ?case by simp
next
  case (Cons c cs)
  show ?case
  proof (cases "prefix ''+++ b/'' (c # cs)")
    case True
    then have "prefix ''+++ '' (c # cs)" by (rule prefix_plus_b)
    then show ?thesis by (rule prefix_imp_sublist)
  next
    case False
    with Cons.prems have "fileMatch cs = Some p"
      by (simp only: fileMatch.simps simp_thms if_False)
    then have "sublist ''+++ '' cs" by (rule Cons.IH)
    then show ?thesis by (simp add: sublist_Cons_right)
  qed
qed

lemma fileMatch_None: "\<not> sublist ''+++ '' t \<Longrightarrow> fileMatch t = None"
  using fileMatch_Some_sublist by (cases "fileMatch t") auto

text \<open>
  Claim C1, as the code has it. When the trimmed text does not start with \<^verbatim>\<open>diff \<close> and the
  text contains neither \<^verbatim>\<open>--- \<close> nor \<^verbatim>\<open>+++ \<close> anywhere, \<open>addMissingHeaders\<close> returns the three
  lines \<^verbatim>\<open>diff --git a/<p> b/<p>\<close>, \<^verbatim>\<open>--- a/<p>\<close>, \<^verbatim>\<open>+++ b/<p>\<close> followed by the original text,
  where \<^verbatim>\<open><p>\<close> is the path found by \<open>fileMatch\<close> or \<^verbatim>\<open>unknown-file\<close>; with no \<^verbatim>\<open>+++ \<close> in the
  text it is always \<^verbatim>\<open>unknown-file\<close>. The third line names \<^verbatim>\<open>b/\<close>, not \<^verbatim>\<open>a/\<close> as the claim says.
\<close>

theorem addMissingHeaders_no_markers:
  assumes "\<not> prefix ''diff '' (trim t)"
    and "\<not> sublist ''--- '' t" and "\<not> sublist ''+++ '' t"
  shows "let p = (case fileMatch t of Some q \<Rightarrow> q | None \<Rightarrow> ''unknown-file'') in
           p = ''unknown-file'' \<and>
           addMissingHeaders t
             = ''diff --git a/'' @ p @ '' b/'' @ p @ ''\<newline>--- a/'' @ p @ ''\<newline>+++ b/'' @ p
                 @ ''\<newline>'' @ t"
  using assms
  by (simp add: addMissingHeaders_def startsWith_def includesStr_iff fileMatch_None LF_def)

text \<open>The theorem at the hunk of the missing-header scenario.\<close>

theorem addMissingHeaders_no_markers_witness:
  "addMissingHeaders ''@@ -1,1 +1,1 @@\<newline>-old line\<newline>+new line''
     = ''diff --git a/unknown-file b/unknown-file\<newline>--- a/unknown-file\<newline>+++ b/unknown-file\<newline>@@ -1,1 +1,1 @@\<newline>-old line\<newline>+new line''"
proof -
  let ?t = "''@@ -1,1 +1,1 @@\<newline>-old line\<newline>+new line''"
  have h1: "\<not> prefix ''diff '' (trim ?t)"
    by (simp add: trim_def isWhiteSpace_def)
  have h2: "\<not> sublist ''--- '' ?t"
    by (simp add: includesStr_iff [symmetric])
  have h3: "\<not> sublist ''+++ '' ?t"
    by (simp add: includesStr_iff [symmetric])
  from addMissingHeaders_no_markers [OF h1 h2 h3] show ?thesis
    by (simp add: Let_def)
qed

text \<open>
  The claim as stated fails at the same input: it satisfies the claim's conditions, no
  path is recovered, and the result is not the preamble ending in \<^verbatim>\<open>+++ a/unknown-file\<close>
  followed by the text.
\<close>

theorem addMissingHeaders_plus_a_counterexample:
  "\<not> prefix ''diff '' (trim ''@@ -1,1 +1,1 @@\<newline>-old line\<newline>+new line'')
   \<and> \<not> includesStr ''@@ -1,1 +1,1 @@\<newline>-old line\<newline>+new line'' ''--- ''
   \<and> \<not> includesStr ''@@ -1,1 +1,1 @@\<newline>-old line\<newline>+new line'' ''+++ ''
   \<and> fileMatch ''@@ -1,1 +1,1 @@\<newline>-old line\<newline>+new line'' = None
   \<and> addMissingHeaders ''@@ -1,1 +1,1 @@\<newline>-old line\<newline>+new line''
       \<noteq> ''diff --git a/unknown-file b/unknown-file\<newline>--- a/unknown-file\<newline>+++ a/unknown-file\<newline>@@ -1,1 +1,1 @@\<newline>-old line\<newline>+new line''"
  by (simp add: addMissingHeaders_def startsWith_def trim_def isWhiteSpace_def LF_def)

text \<open>
  Claim C5. \<open>addMissingHeaders\<close> is idempotent: applied to its own output it returns that
  output unchanged, for every input text.
\<close>

theorem addMissingHeaders_idem: "addMissingHeaders (addMissingHeaders t) = addMissingHeaders t"
proof (cases "startsWith (trim t) ''diff ''")
  case True
  then show ?thesis by (simp add: addMissingHeaders_def)
next
  case False
  show ?thesis
  proof (cases "includesStr t ''--- ''")
    case True
    then show ?thesis by (simp add: addMissingHeaders_def Let_def)
  next
    case no_old: False
    have "\<exists>r. addMissingHeaders t = ''diff --git a/'' @ r"
      using False no_old by (simp add: addMissingHeaders_def Let_def)
    then obtain r where r: "addMissingHeaders t = ''diff --git a/'' @ r" ..
    have "addMissingHeaders (''diff --git a/'' @ r) = ''diff --git a/'' @ r"
      using trim_diff_git [of r] unfolding addMissingHeaders_def by (simp only: not_True_eq_False if_False)
    with r show ?thesis by simp
  qed
qed

text \<open>An input that has a \<^verbatim>\<open>+++ \<close> line only: two lines are put in front, once.\<close>

theorem addMissingHeaders_idem_witness:
  "addMissingHeaders (addMissingHeaders ''+++ b/x.ts\<newline>@@ -1 +1 @@\<newline>+a'')
     = ''diff --git a/x.ts b/x.ts\<newline>--- a/x.ts\<newline>+++ b/x.ts\<newline>@@ -1 +1 @@\<newline>+a''"
proof -
  have "addMissingHeaders ''+++ b/x.ts\<newline>@@ -1 +1 @@\<newline>+a''
     = ''diff --git a/x.ts b/x.ts\<newline>--- a/x.ts\<newline>+++ b/x.ts\<newline>@@ -1 +1 @@\<newline>+a''"
    by (simp add: addMissingHeaders_def startsWith_def trim_def isWhiteSpace_def LF_def CR_def
        isLineTerminator_def)
  with addMissingHeaders_idem [of "''+++ b/x.ts\<newline>@@ -1 +1 @@\<newline>+a''"] show ?thesis
    by simp
qed

text \<open>
  Claim C8. The presence checks are substring tests over the whole text: when the trimmed
  text does not start with \<^verbatim>\<open>diff \<close> and \<^verbatim>\<open>--- \<close> occurs anywhere in the text, also in the
  middle of a body line, \<open>addMissingHeaders\<close> returns the input unchanged.
\<close>

theorem addMissingHeaders_old_marker_anywhere:
  "\<not> prefix ''diff '' (trim t) \<Longrightarrow> sublist ''--- '' t \<Longrightarrow> addMissingHeaders t = t"
  by (simp add: addMissingHeaders_def includesStr_iff Let_def)

text \<open>Here \<^verbatim>\<open>--- \<close> occurs inside an addition line, and no preamble is made.\<close>

theorem addMissingHeaders_old_marker_anywhere_witness:
  "addMissingHeaders ''@@ -1 +1 @@\<newline>+see --- below'' = ''@@ -1 +1 @@\<newline>+see --- below''"
proof -
  let ?t = "''@@ -1 +1 @@\<newline>+see --- below''"
  have h1: "\<not> prefix ''diff '' (trim ?t)"
    by (simp add: trim_def isWhiteSpace_def)
  have h2: "sublist ''--- '' ?t"
    by (simp add: includesStr_iff [symmetric])
  from addMissingHeaders_old_marker_anywhere [OF h1 h2] show ?thesis .
qed

section \<open>The Hunk-Header Recalculator\<close>

subsection \<open>The loops as list functions\<close>

lemma countLoop_countBody: "countLoop lines j acc = Inr (countBody (drop j lines) acc)"
proof (induction lines j acc rule: countLoop.induct)
  case (1 lines j oldLines newLines)
  show ?case
  proof (cases "j < length lines")
    case False
    then show ?thesis by (simp add: countLoop.simps)
  next
    case True
    then have d: "drop j lines = lines ! j # drop (j + 1) lines"
      by (simp add: Cons_nth_drop_Suc)
    have at: "lineAt lines j = Inr (lines ! j)" using True by (simp add: lineAt_def)
    show ?thesis
    proof (cases "startsWith (lines ! j) ''diff --git'' \<or> startsWith (lines ! j) ''@@ ''")
      case stop: True
      then show ?thesis
        using True by (subst countLoop.simps) (simp add: at d del: One_nat_def)
    next
      case go: False
      from "1.IH" [OF True at go] go True show ?thesis
        by (subst countLoop.simps) (simp add: at d)
    qed
  qed
qed

lemma adjustLoop_adjustLines:
  "adjustLoop lines i result = Inr (result @ adjustLines (drop i lines))"
proof (induction lines i result rule: adjustLoop.induct)
  case (1 lines i result)
  show ?case
  proof (cases "i < length lines")
    case False
    then show ?thesis by (simp add: adjustLoop.simps)
  next
    case True
    then have d: "drop i lines = lines ! i # drop (i + 1) lines"
      by (simp add: Cons_nth_drop_Suc)
    have at: "lineAt lines i = Inr (lines ! i)" using True by (simp add: lineAt_def)
    show ?thesis
    proof (cases "hunkMatch (lines ! i)")
      case None
      from "1.IH"(1) [OF True at None] None True show ?thesis
        by (subst adjustLoop.simps) (simp add: at d)
    next
      case (Some m)
      have c: "countLoop lines (i + 1) (0, 0) = Inr (countBody (drop (i + 1) lines) (0, 0))"
        by (rule countLoop_countBody)
      from "1.IH"(2) [OF True at Some c] Some True show ?thesis
        by (subst adjustLoop.simps) (simp add: at d countLoop_countBody)
    qed
  qed
qed

lemma adjustHunkHeaders_lines:
  "adjustHunkHeaders t = Inr (join_nl (adjustLines (split_nl t)))"
  by (simp add: adjustHunkHeaders_def adjustLoop_adjustLines)

subsection \<open>The hunk-header pattern\<close>

text \<open>
  The matcher takes the digits greedily and never backtracks. The lemmas below show that
  this loses nothing: \<open>hunkMatch\<close> succeeds exactly on the texts of the pattern, with the
  groups the text is made of.
\<close>

lemma expect_Some_iff: "expect p s = Some r \<longleftrightarrow> s = p @ r"
  by (auto simp: expect_def prefix_def)

lemma expect_append: "expect p (p @ r) = Some r"
  by (simp add: expect_Some_iff)

lemma takeDigits_Some: "takeDigits s = Some (ds, r) \<Longrightarrow> digits ds \<and> s = ds @ r"
  by (auto simp: takeDigits_def digits_def list_all_iff split: if_splits dest: set_takeWhileD)

lemma takeDigits_append:
  assumes "digits ds" and "r = [] \<or> \<not> isDigit (hd r)"
  shows "takeDigits (ds @ r) = Some (ds, r)"
proof -
  from assms(2) have r: "takeWhile isDigit r = []" "dropWhile isDigit r = r"
    by (cases r; simp)+
  from assms(1) have "takeWhile isDigit (ds @ r) = ds" "dropWhile isDigit (ds @ r) = r"
    by (simp_all add: digits_def list_all_iff r)
  with assms(1) show ?thesis by (simp add: takeDigits_def digits_def)
qed

lemma optCount_sound:
  "optCount s = (g, r) \<Longrightarrow> s = optText g @ r \<and> (case g of None \<Rightarrow> True | Some c \<Rightarrow> digits c)"
  by (auto simp: optCount_def optText_def expect_Some_iff
      split: option.splits prod.splits dest: takeDigits_Some)

lemma optCount_Some:
  "digits c \<Longrightarrow> r = [] \<or> \<not> isDigit (hd r) \<Longrightarrow> optCount ('','' @ c @ r) = (Some c, r)"
  using takeDigits_append [of c r] expect_append [of "'',''" "c @ r"]
  by (simp add: optCount_def)

lemma optCount_None: "\<not> prefix '','' r \<Longrightarrow> optCount r = (None, r)"
  by (simp add: optCount_def expect_def)

lemma optCount_optText:
  assumes "case g of None \<Rightarrow> True | Some c \<Rightarrow> digits c"
    and "r \<noteq> []" and "hd r = CHR '' ''"
  shows "optCount (optText g @ r) = (g, r)"
proof (cases g)
  case None
  from assms(2,3) have "\<not> prefix '','' r" by (cases r) auto
  with None show ?thesis by (simp add: optText_def optCount_None)
next
  case (Some c)
  from assms(3) have "\<not> isDigit (hd r)" by (simp add: isDigit_def)
  with Some assms(1) show ?thesis
    using optCount_Some [of c r] by (simp add: optText_def)
qed

lemma hunkMatch_sound:
  assumes "hunkMatch line = Some m"
  shows "hunkGroupsOk m \<and> line = hunkText m"
proof -
  note hm = assms [unfolded hunkMatch_def]
  from hm obtain r1 where e1: "expect ''@@ -'' line = Some r1"
    by (cases "expect ''@@ -'' line") simp_all
  from hm e1 obtain g1 r2 where d1: "takeDigits r1 = Some (g1, r2)"
    by (cases "takeDigits r1") auto
  obtain g2 r3 where o1: "optCount r2 = (g2, r3)"
    by (cases "optCount r2")
  from hm e1 d1 o1 obtain r4 where e2: "expect '' +'' r3 = Some r4"
    by (cases "expect '' +'' r3") simp_all
  from hm e1 d1 o1 e2 obtain g3 r5 where d2: "takeDigits r4 = Some (g3, r5)"
    by (cases "takeDigits r4") auto
  obtain g4 r6 where o2: "optCount r5 = (g4, r6)"
    by (cases "optCount r5")
  from hm e1 d1 o1 e2 d2 o2 obtain g5 where e3: "expect '' @@'' r6 = Some g5"
    by (cases "expect '' @@'' r6") simp_all
  from hm e1 d1 o1 e2 d2 o2 e3 have lt: "\<not> list_ex isLineTerminator g5"
    by (simp split: if_splits)
  from hm e1 d1 o1 e2 d2 o2 e3 lt
  have m: "m = \<lparr>oldStart = g1, oldCount = g2, newStart = g3, newCount = g4, trailing = g5\<rparr>"
    by simp
  from e1 have "line = ''@@ -'' @ r1" by (simp only: expect_Some_iff)
  moreover from d1 have "digits g1" "r1 = g1 @ r2" by (auto dest: takeDigits_Some)
  moreover from o1 have "r2 = optText g2 @ r3" "case g2 of None \<Rightarrow> True | Some c \<Rightarrow> digits c"
    by (auto dest: optCount_sound)
  moreover from e2 have "r3 = '' +'' @ r4" by (simp only: expect_Some_iff)
  moreover from d2 have "digits g3" "r4 = g3 @ r5" by (auto dest: takeDigits_Some)
  moreover from o2 have "r5 = optText g4 @ r6" "case g4 of None \<Rightarrow> True | Some c \<Rightarrow> digits c"
    by (auto dest: optCount_sound)
  moreover from e3 have "r6 = '' @@'' @ g5" by (simp only: expect_Some_iff)
  ultimately have "hunkGroupsOk m" "line = hunkText m"
    unfolding m hunkGroupsOk_def hunkText_def using lt
    by (simp_all only: hunkGroups.select_convs append_assoc simp_thms)
  then show ?thesis by (rule conjI)
qed

lemma hunkMatch_complete:
  assumes "hunkGroupsOk m"
  shows "hunkMatch (hunkText m) = Some m"
proof -
  let ?r6 = "'' @@'' @ trailing m"
  let ?r5 = "optText (newCount m) @ ?r6"
  let ?r4 = "newStart m @ ?r5"
  let ?r3 = "'' +'' @ ?r4"
  let ?r2 = "optText (oldCount m) @ ?r3"
  let ?r1 = "oldStart m @ ?r2"
  from assms have ok: "digits (oldStart m)" "digits (newStart m)"
    "case oldCount m of None \<Rightarrow> True | Some c \<Rightarrow> digits c"
    "case newCount m of None \<Rightarrow> True | Some c \<Rightarrow> digits c"
    "\<not> list_ex isLineTerminator (trailing m)"
    by (simp_all add: hunkGroupsOk_def)
  have e1: "expect ''@@ -'' (hunkText m) = Some ?r1"
    by (simp add: expect_Some_iff hunkText_def)
  have nd: "\<not> isDigit (hd ?r2)" "\<not> isDigit (hd ?r5)"
    by (auto simp: optText_def isDigit_def split: option.splits)
  have d1: "takeDigits ?r1 = Some (oldStart m, ?r2)"
    using ok(1) nd(1) by (intro takeDigits_append) simp_all
  have o1: "optCount ?r2 = (oldCount m, ?r3)"
    using ok(3) by (intro optCount_optText) simp_all
  have e2: "expect '' +'' ?r3 = Some ?r4" by (rule expect_append)
  have d2: "takeDigits ?r4 = Some (newStart m, ?r5)"
    using ok(2) nd(2) by (intro takeDigits_append) simp_all
  have o2: "optCount ?r5 = (newCount m, ?r6)"
    using ok(4) by (intro optCount_optText) simp_all
  have e3: "expect '' @@'' ?r6 = Some (trailing m)" by (rule expect_append)
  show ?thesis
    unfolding hunkMatch_def
    by (simp only: e1 d1 o1 e2 d2 o2 e3 ok(5) Option.bind.simps prod.case if_False)
       simp
qed

lemma hunkMatch_iff: "hunkMatch line = Some m \<longleftrightarrow> hunkGroupsOk m \<and> line = hunkText m"
  using hunkMatch_sound hunkMatch_complete by blast


lemma digit_value: "k < 10 \<Longrightarrow> of_char (''0123456789'' ! k) - 48 = (k::nat)"
proof -
  assume "k < 10"
  then consider "k = 0" | "k = 1" | "k = 2" | "k = 3" | "k = 4" | "k = 5" | "k = 6"
    | "k = 7" | "k = 8" | "k = 9"
    by (auto simp: eval_nat_numeral less_Suc_eq)
  then show ?thesis by cases simp_all
qed

lemma decimalValue_toString: "decimalValue (toString n) = n"
proof (induction n rule: toString.induct)
  case (1 n)
  show ?case
  proof (cases "n < 10")
    case True
    then show ?thesis by (subst toString.simps) (simp add: decimalValue_def digit_value)
  next
    case False
    with 1 have "decimalValue (toString (n div 10)) = n div 10" by simp
    then show ?thesis using False
      by (subst toString.simps) (simp add: decimalValue_def digit_value)
  qed
qed





subsection \<open>The rewritten lines\<close>






lemmas hunk_eval =
  hunkMatch_def expect_def takeDigits_def optCount_def isDigit_def isLineTerminator_def
  LF_def CR_def startsWith_def




text \<open>
  Claim C9. The look-ahead looks at the first character only. In the third text a
  \<^verbatim>\<open>--- a/g.ts\<close> and a \<^verbatim>\<open>+++ b/g.ts\<close> line stand between the first hunk header and the next
  \<^verbatim>\<open>@@ \<close> line: the hunk has one deletion and one addition (first text, counts \<^verbatim>\<open>1,1\<close>), the
  \<^verbatim>\<open>---\<close> line is counted as a second deletion (second text, \<^verbatim>\<open>2,1\<close>) and the \<^verbatim>\<open>+++\<close> line as a
  second addition (third text, \<^verbatim>\<open>2,2\<close>).
\<close>

theorem adjustHunkHeaders_file_markers_counted:
  "adjustHunkHeaders ''@@ -1 +1 @@\<newline>-a\<newline>+b''
     = Inr ''@@ -1,1 +1,1 @@\<newline>-a\<newline>+b''
   \<and> adjustHunkHeaders ''@@ -1 +1 @@\<newline>-a\<newline>+b\<newline>--- a/g.ts''
     = Inr ''@@ -1,2 +1,1 @@\<newline>-a\<newline>+b\<newline>--- a/g.ts''
   \<and> adjustHunkHeaders ''@@ -1 +1 @@\<newline>-a\<newline>+b\<newline>--- a/g.ts\<newline>+++ b/g.ts\<newline>@@ -7 +7 @@\<newline>-c\<newline>+d''
     = Inr ''@@ -1,2 +1,2 @@\<newline>-a\<newline>+b\<newline>--- a/g.ts\<newline>+++ b/g.ts\<newline>@@ -7,1 +7,1 @@\<newline>-c\<newline>+d''"
proof -
  have one: "toString (Suc 0) = ''1''" by (subst toString.simps) simp
  have two: "toString (Suc (Suc 0)) = ''2''" by (subst toString.simps) simp
  show ?thesis
    by (simp add: adjustHunkHeaders_lines hunk_eval rebuild_def one two)
qed

section \<open>The Header Field Extractor\<close>

lemma splitLast_Some: "splitLast sep s = Some (a, b) \<Longrightarrow> s = a @ sep @ b"
proof (induction s arbitrary: a b)
  case Nil
  then show ?case by (simp split: if_splits)
next
  case (Cons c cs)
  show ?case
  proof (cases "splitLast sep cs")
    case None
    with Cons.prems have "prefix sep (c # cs)" "a = []" "b = drop (length sep) (c # cs)"
      by (simp_all split: if_splits)
    then show ?thesis by (auto simp: prefix_def)
  next
    case (Some p)
    obtain x y where p: "p = (x, y)" by (cases p)
    with Some Cons.prems have "a = c # x" "b = y" by simp_all
    moreover from Some p have "cs = x @ sep @ y" by (intro Cons.IH) simp
    ultimately show ?thesis by simp
  qed
qed

lemma splitLast_complete: "s = a @ sep @ b \<Longrightarrow> splitLast sep s \<noteq> None"
proof (induction s arbitrary: a)
  case Nil
  then show ?case by simp
next
  case (Cons c cs)
  show ?case
  proof (cases a)
    case Nil
    with Cons.prems have "prefix sep (c # cs)" by (simp add: prefix_def)
    then show ?thesis by (cases "splitLast sep cs") auto
  next
    case (Cons x xs)
    with Cons.prems have "cs = xs @ sep @ b" by simp
    then have "splitLast sep cs \<noteq> None" by (rule Cons.IH)
    then show ?thesis by auto
  qed
qed

lemma splitLast_longest:
  "splitLast sep s = Some (a, b) \<Longrightarrow> s = a' @ sep @ b' \<Longrightarrow> length a' \<le> length a"
proof (induction s arbitrary: a a' b)
  case Nil
  then show ?case by simp
next
  case (Cons c cs)
  show ?case
  proof (cases a')
    case Nil
    then show ?thesis by simp
  next
    case a': (Cons x xs)
    with Cons.prems(2) have cs: "cs = xs @ sep @ b'" by simp
    then have "splitLast sep cs \<noteq> None" by (rule splitLast_complete)
    then obtain u v where uv: "splitLast sep cs = Some (u, v)" by auto
    with Cons.prems(1) have "a = c # u" by simp
    moreover from uv cs have "length xs \<le> length u" by (rule Cons.IH)
    ultimately show ?thesis using a' by simp
  qed
qed

lemma gitHeaderMatch_Some:
  assumes "gitHeaderMatch line = Some (g1, g2)"
  shows "line = ''diff --git a/'' @ g1 @ '' b/'' @ g2
         \<and> \<not> list_ex isLineTerminator g1 \<and> \<not> list_ex isLineTerminator g2
         \<and> (\<forall>old new. line = ''diff --git a/'' @ old @ '' b/'' @ new
               \<longrightarrow> length old \<le> length g1)"
proof -
  note gm = assms [unfolded gitHeaderMatch_def]
  from gm obtain r where e: "expect ''diff --git a/'' line = Some r"
    by (cases "expect ''diff --git a/'' line") simp_all
  from gm e have lt: "\<not> list_ex isLineTerminator r" and sp: "splitLast '' b/'' r = Some (g1, g2)"
    by (simp_all split: if_splits)
  from e have line: "line = ''diff --git a/'' @ r" by (simp only: expect_Some_iff)
  from sp have r: "r = g1 @ '' b/'' @ g2" by (rule splitLast_Some)
  from lt r have "\<not> list_ex isLineTerminator g1" "\<not> list_ex isLineTerminator g2"
    by (simp_all add: list_ex_iff)
  moreover have "length old \<le> length g1" if "line = ''diff --git a/'' @ old @ '' b/'' @ new" for old new
  proof -
    from that line have "r = old @ '' b/'' @ new" by simp
    with sp show ?thesis by (rule splitLast_longest)
  qed
  ultimately show ?thesis unfolding line r by simp
qed

lemma gitHeaderMatch_None:
  assumes "gitHeaderMatch line = None"
  shows "\<not> (\<exists>old new. line = ''diff --git a/'' @ old @ '' b/'' @ new
              \<and> \<not> list_ex isLineTerminator old \<and> \<not> list_ex isLineTerminator new)"
proof
  assume "\<exists>old new. line = ''diff --git a/'' @ old @ '' b/'' @ new
              \<and> \<not> list_ex isLineTerminator old \<and> \<not> list_ex isLineTerminator new"
  then obtain old new where line: "line = ''diff --git a/'' @ (old @ '' b/'' @ new)"
    and lt: "\<not> list_ex isLineTerminator old" "\<not> list_ex isLineTerminator new"
    by auto
  have e: "expect ''diff --git a/'' line = Some (old @ '' b/'' @ new)"
    unfolding line by (rule expect_append)
  have "\<not> list_ex isLineTerminator (old @ '' b/'' @ new)"
    using lt by (auto simp: list_ex_iff isLineTerminator_def LF_def CR_def)
  moreover have "splitLast '' b/'' (old @ '' b/'' @ new) \<noteq> None"
    by (rule splitLast_complete) simp
  ultimately have "gitHeaderMatch line \<noteq> None"
    unfolding gitHeaderMatch_def by (simp only: e Option.bind.simps if_False) simp
  with assms show False by simp
qed

text \<open>
  Claim C6. A line matches the grammar when it is \<^verbatim>\<open>diff --git a/<old> b/<new>\<close> with no line
  terminator in \<^verbatim>\<open><old>\<close> and \<^verbatim>\<open><new>\<close>. For such a line \<open>extractFileNamesFromHeader\<close> returns
  the two paths, each passed through the sanitizer; where the line can be cut in several
  ways, \<^verbatim>\<open><old>\<close> is the longest. For every other line, whatever header form it has, both
  fields are undefined.
\<close>

theorem extractFileNamesFromHeader_grammar:
  "(if \<exists>old new. line = ''diff --git a/'' @ old @ '' b/'' @ new
         \<and> \<not> list_ex isLineTerminator old \<and> \<not> list_ex isLineTerminator new
    then \<exists>old new. line = ''diff --git a/'' @ old @ '' b/'' @ new
         \<and> \<not> list_ex isLineTerminator old \<and> \<not> list_ex isLineTerminator new
         \<and> (\<forall>old' new'. line = ''diff --git a/'' @ old' @ '' b/'' @ new'
               \<longrightarrow> length old' \<le> length old)
         \<and> extractFileNamesFromHeader sanitizePath line
             = \<lparr>oldFile = Some (sanitizePath old), newFile = Some (sanitizePath new)\<rparr>
    else extractFileNamesFromHeader sanitizePath line = \<lparr>oldFile = None, newFile = None\<rparr>)"
proof (cases "gitHeaderMatch line")
  case None
  then show ?thesis
    using gitHeaderMatch_None [OF None] by (simp add: extractFileNamesFromHeader_def)
next
  case (Some p)
  obtain g1 g2 where p: "p = (g1, g2)" by (cases p)
  note g = gitHeaderMatch_Some [OF Some [unfolded p]]
  have ex: "extractFileNamesFromHeader sanitizePath line
             = \<lparr>oldFile = Some (sanitizePath g1), newFile = Some (sanitizePath g2)\<rparr>"
    by (simp add: extractFileNamesFromHeader_def Some p)
  from g have c: "\<exists>old new. line = ''diff --git a/'' @ old @ '' b/'' @ new
         \<and> \<not> list_ex isLineTerminator old \<and> \<not> list_ex isLineTerminator new"
    by blast
  from g ex have "\<exists>old new. line = ''diff --git a/'' @ old @ '' b/'' @ new
         \<and> \<not> list_ex isLineTerminator old \<and> \<not> list_ex isLineTerminator new
         \<and> (\<forall>old' new'. line = ''diff --git a/'' @ old' @ '' b/'' @ new'
               \<longrightarrow> length old' \<le> length old)
         \<and> extractFileNamesFromHeader sanitizePath line
             = \<lparr>oldFile = Some (sanitizePath old), newFile = Some (sanitizePath new)\<rparr>"
    by blast
  with c show ?thesis by (simp only: if_True)
qed

text \<open>
  A line with two \<^verbatim>\<open> b/\<close>, cut at the last one, and a \<^verbatim>\<open>---\<close> line, which is not recognised.
  The sanitizer here puts \<^verbatim>\<open>S:\<close> in front of a path.
\<close>

theorem extractFileNamesFromHeader_grammar_witness:
  "extractFileNamesFromHeader (\<lambda>p. ''S:'' @ p) ''diff --git a/x b/y b/z''
     = \<lparr>oldFile = Some ''S:x b/y'', newFile = Some ''S:z''\<rparr>
   \<and> extractFileNamesFromHeader (\<lambda>p. ''S:'' @ p) ''--- a/x b/y''
     = \<lparr>oldFile = None, newFile = None\<rparr>"
proof -
  let ?san = "\<lambda>p. ''S:'' @ p"
  let ?l1 = "''diff --git a/x b/y b/z''"
  let ?l2 = "''--- a/x b/y''"
  have "?l1 = ''diff --git a/'' @ ''x'' @ '' b/'' @ ''y b/z''
      \<and> \<not> list_ex isLineTerminator ''x'' \<and> \<not> list_ex isLineTerminator ''y b/z''"
    by (simp add: isLineTerminator_def LF_def CR_def)
  then have m: "\<exists>old new. ?l1 = ''diff --git a/'' @ old @ '' b/'' @ new
         \<and> \<not> list_ex isLineTerminator old \<and> \<not> list_ex isLineTerminator new"
    by blast
  note th = extractFileNamesFromHeader_grammar [of ?l1 ?san, unfolded if_P [OF m]]
  from th obtain old new where
    line: "?l1 = ''diff --git a/'' @ old @ '' b/'' @ new" and
    longest: "\<forall>old' new'. ?l1 = ''diff --git a/'' @ old' @ '' b/'' @ new'
               \<longrightarrow> length old' \<le> length old" and
    res: "extractFileNamesFromHeader ?san ?l1
             = \<lparr>oldFile = Some (?san old), newFile = Some (?san new)\<rparr>"
    by blast
  have "?l1 = ''diff --git a/'' @ ''x b/y'' @ '' b/'' @ ''z''" by simp
  with longest have "length ''x b/y'' \<le> length old" by blast
  then have len: "5 \<le> length old" by simp
  from line have eq: "''x b/y b/z'' = old @ '' b/'' @ new" by simp
  then have "length ''x b/y b/z'' = length (old @ '' b/'' @ new)" by (rule arg_cong)
  with len have "length old = 5 \<or> length old = 6" by simp arith
  then have "old = ''x b/y'' \<and> new = ''z''"
  proof
    assume "length old = 5"
    then have "old = take 5 ''x b/y b/z''" "'' b/'' @ new = drop 5 ''x b/y b/z''"
      unfolding eq by simp_all
    then show ?thesis by (simp add: eval_nat_numeral)
  next
    assume "length old = 6"
    then have "'' b/'' @ new = drop 6 ''x b/y b/z''" unfolding eq by simp
    then show ?thesis by (simp add: eval_nat_numeral)
  qed
  with res have w1: "extractFileNamesFromHeader ?san ?l1
     = \<lparr>oldFile = Some ''S:x b/y'', newFile = Some ''S:z''\<rparr>"
    by simp
  have "\<not> (\<exists>old new. ?l2 = ''diff --git a/'' @ old @ '' b/'' @ new
         \<and> \<not> list_ex isLineTerminator old \<and> \<not> list_ex isLineTerminator new)"
    by simp
  with extractFileNamesFromHeader_grammar [of ?l2 ?san]
  have w2: "extractFileNamesFromHeader ?san ?l2 = \<lparr>oldFile = None, newFile = None\<rparr>"
    by (simp only: if_False)
  from w1 w2 show ?thesis by (rule conjI)
qed

section \<open>The Diff Validity Classifier\<close>

lemma strictHunkAt_complete:
  assumes "digits a" "digits b" "digits c" "digits d"
  shows "strictHunkAt (''@@ -'' @ a @ '','' @ b @ '' +'' @ c @ '','' @ d @ '' @@'' @ post)"
proof -
  let ?r8 = "'' @@'' @ post"
  let ?r7 = "d @ ?r8"
  let ?r6 = "'','' @ ?r7"
  let ?r5 = "c @ ?r6"
  let ?r4 = "'' +'' @ ?r5"
  let ?r3 = "b @ ?r4"
  let ?r2 = "'','' @ ?r3"
  let ?r1 = "a @ ?r2"
  have e1: "expect ''@@ -'' (''@@ -'' @ ?r1) = Some ?r1" by (rule expect_append)
  have d1: "takeDigits ?r1 = Some (a, ?r2)"
    using assms(1) by (intro takeDigits_append) (simp_all add: isDigit_def)
  have e2: "expect '','' ?r2 = Some ?r3" by (rule expect_append)
  have d2: "takeDigits ?r3 = Some (b, ?r4)"
    using assms(2) by (intro takeDigits_append) (simp_all add: isDigit_def)
  have e3: "expect '' +'' ?r4 = Some ?r5" by (rule expect_append)
  have d3: "takeDigits ?r5 = Some (c, ?r6)"
    using assms(3) by (intro takeDigits_append) (simp_all add: isDigit_def)
  have e4: "expect '','' ?r6 = Some ?r7" by (rule expect_append)
  have d4: "takeDigits ?r7 = Some (d, ?r8)"
    using assms(4) by (intro takeDigits_append) (simp_all add: isDigit_def)
  have e5: "expect '' @@'' ?r8 = Some post" by (rule expect_append)
  show ?thesis
    unfolding strictHunkAt_def
    by (simp only: e1 d1 e2 d2 e3 d3 e4 d4 e5 Option.bind.simps prod.case) simp
qed

lemma strictHunkAt_sound:
  assumes "strictHunkAt s"
  shows "\<exists>a b c d post. s = ''@@ -'' @ a @ '','' @ b @ '' +'' @ c @ '','' @ d @ '' @@'' @ post
           \<and> digits a \<and> digits b \<and> digits c \<and> digits d"
proof -
  note sh = assms [unfolded strictHunkAt_def]
  from sh obtain r1 where e1: "expect ''@@ -'' s = Some r1"
    by (cases "expect ''@@ -'' s") simp_all
  from sh e1 obtain a r2 where d1: "takeDigits r1 = Some (a, r2)"
    by (cases "takeDigits r1") auto
  from sh e1 d1 obtain r3 where e2: "expect '','' r2 = Some r3"
    by (cases "expect '','' r2") simp_all
  from sh e1 d1 e2 obtain b r4 where d2: "takeDigits r3 = Some (b, r4)"
    by (cases "takeDigits r3") auto
  from sh e1 d1 e2 d2 obtain r5 where e3: "expect '' +'' r4 = Some r5"
    by (cases "expect '' +'' r4") simp_all
  from sh e1 d1 e2 d2 e3 obtain c r6 where d3: "takeDigits r5 = Some (c, r6)"
    by (cases "takeDigits r5") auto
  from sh e1 d1 e2 d2 e3 d3 obtain r7 where e4: "expect '','' r6 = Some r7"
    by (cases "expect '','' r6") simp_all
  from sh e1 d1 e2 d2 e3 d3 e4 obtain d r8 where d4: "takeDigits r7 = Some (d, r8)"
    by (cases "takeDigits r7") auto
  from sh e1 d1 e2 d2 e3 d3 e4 d4 obtain post where e5: "expect '' @@'' r8 = Some post"
    by (cases "expect '' @@'' r8") simp_all
  have q1: "s = ''@@ -'' @ r1" using e1 by (simp only: expect_Some_iff)
  have q2: "r1 = a @ r2" and da: "digits a" using d1 by (auto dest: takeDigits_Some)
  have q3: "r2 = '','' @ r3" using e2 by (simp only: expect_Some_iff)
  have q4: "r3 = b @ r4" and db: "digits b" using d2 by (auto dest: takeDigits_Some)
  have q5: "r4 = '' +'' @ r5" using e3 by (simp only: expect_Some_iff)
  have q6: "r5 = c @ r6" and dc: "digits c" using d3 by (auto dest: takeDigits_Some)
  have q7: "r6 = '','' @ r7" using e4 by (simp only: expect_Some_iff)
  have q8: "r7 = d @ r8" and dd: "digits d" using d4 by (auto dest: takeDigits_Some)
  have q9: "r8 = '' @@'' @ post" using e5 by (simp only: expect_Some_iff)
  have "s = ''@@ -'' @ a @ '','' @ b @ '' +'' @ c @ '','' @ d @ '' @@'' @ post"
    by (simp only: q1 q2 q3 q4 q5 q6 q7 q8 q9)
  with da db dc dd show ?thesis by blast
qed

lemma hasHunkHeader_iff_suffix:
  "hasHunkHeader t \<longleftrightarrow> (\<exists>pre s. t = pre @ s \<and> strictHunkAt s)"
proof (induction t)
  case Nil
  have "\<not> strictHunkAt []" by (simp add: strictHunkAt_def expect_def)
  then show ?case by simp
next
  case (Cons x xs)
  show ?case
  proof
    assume "hasHunkHeader (x # xs)"
    then consider "strictHunkAt (x # xs)" | "hasHunkHeader xs" by auto
    then show "\<exists>pre s. x # xs = pre @ s \<and> strictHunkAt s"
    proof cases
      case 1
      then have "x # xs = [] @ (x # xs) \<and> strictHunkAt (x # xs)" by simp
      then show ?thesis by blast
    next
      case 2
      with Cons obtain pre s where "xs = pre @ s" "strictHunkAt s" by auto
      then have "x # xs = (x # pre) @ s \<and> strictHunkAt s" by simp
      then show ?thesis by blast
    qed
  next
    assume "\<exists>pre s. x # xs = pre @ s \<and> strictHunkAt s"
    then obtain pre s where ps: "x # xs = pre @ s" "strictHunkAt s" by auto
    show "hasHunkHeader (x # xs)"
    proof (cases pre)
      case Nil
      with ps have "strictHunkAt (x # xs)" by simp
      then show ?thesis by simp
    next
      case (Cons y ys)
      with ps have "xs = ys @ s" by simp
      with ps(2) Cons.IH have "hasHunkHeader xs" by blast
      then show ?thesis by simp
    qed
  qed
qed

lemma hasHunkHeader_iff:
  "hasHunkHeader t \<longleftrightarrow>
     (\<exists>pre a b c d post.
        t = pre @ ''@@ -'' @ a @ '','' @ b @ '' +'' @ c @ '','' @ d @ '' @@'' @ post
        \<and> digits a \<and> digits b \<and> digits c \<and> digits d)"
proof
  assume "hasHunkHeader t"
  then obtain pre s where "t = pre @ s" "strictHunkAt s"
    unfolding hasHunkHeader_iff_suffix by blast
  then show "\<exists>pre a b c d post.
        t = pre @ ''@@ -'' @ a @ '','' @ b @ '' +'' @ c @ '','' @ d @ '' @@'' @ post
        \<and> digits a \<and> digits b \<and> digits c \<and> digits d"
    using strictHunkAt_sound [of s] by blast
next
  assume "\<exists>pre a b c d post.
        t = pre @ ''@@ -'' @ a @ '','' @ b @ '' +'' @ c @ '','' @ d @ '' @@'' @ post
        \<and> digits a \<and> digits b \<and> digits c \<and> digits d"
  then obtain pre a b c d post where
    tq: "t = pre @ (''@@ -'' @ a @ '','' @ b @ '' +'' @ c @ '','' @ d @ '' @@'' @ post)"
    and dg: "digits a" "digits b" "digits c" "digits d"
    by auto
  from dg have "strictHunkAt (''@@ -'' @ a @ '','' @ b @ '' +'' @ c @ '','' @ d @ '' @@'' @ post)"
    by (rule strictHunkAt_complete)
  with tq show "hasHunkHeader t" unfolding hasHunkHeader_iff_suffix by blast
qed

lemma hasHunkHeader_not_blank:
  assumes "hasHunkHeader t"
  shows "t \<noteq> [] \<and> trim t \<noteq> []"
proof -
  from assms obtain pre r where "t = pre @ ''@@ -'' @ r"
    unfolding hasHunkHeader_iff by auto
  then have "CHR ''@'' \<in> set t" by simp
  moreover have "\<not> isWhiteSpace CHR ''@''" by (simp add: isWhiteSpace_def)
  ultimately have "\<not> (\<forall>c\<in>set t. isWhiteSpace c)" by blast
  then show ?thesis by (auto simp: trim_Nil_iff)
qed

text \<open>
  Claim C4. A text that contains a strict hunk header
  \<^verbatim>\<open>@@ -<digits>,<digits> +<digits>,<digits> @@\<close> is classified valid. A text with fewer than
  two lines that begin, after trimming, with \<^verbatim>\<open>+\<close> or \<^verbatim>\<open>-\<close>, with none of \<^verbatim>\<open>diff --git\<close>,
  \<^verbatim>\<open>--- \<close>, \<^verbatim>\<open>+++ \<close> in it and with no strict hunk header is classified invalid. An empty or
  whitespace-only text is classified invalid.
\<close>

theorem isUnifiedDiff_classification:
  "((\<exists>pre a b c d post.
        t = pre @ ''@@ -'' @ a @ '','' @ b @ '' +'' @ c @ '','' @ d @ '' @@'' @ post
        \<and> digits a \<and> digits b \<and> digits c \<and> digits d)
      \<longrightarrow> isUnifiedDiff t)
   \<and> (length (filter (\<lambda>line. prefix ''+'' (trim line) \<or> prefix ''-'' (trim line)) (split_nl t)) < 2
        \<and> \<not> sublist ''diff --git'' t \<and> \<not> sublist ''--- '' t \<and> \<not> sublist ''+++ '' t
        \<and> \<not> (\<exists>pre a b c d post.
              t = pre @ ''@@ -'' @ a @ '','' @ b @ '' +'' @ c @ '','' @ d @ '' @@'' @ post
              \<and> digits a \<and> digits b \<and> digits c \<and> digits d)
      \<longrightarrow> \<not> isUnifiedDiff t)
   \<and> ((\<forall>c\<in>set t. isWhiteSpace c) \<longrightarrow> \<not> isUnifiedDiff t)"
proof (intro conjI impI)
  assume "\<exists>pre a b c d post.
        t = pre @ ''@@ -'' @ a @ '','' @ b @ '' +'' @ c @ '','' @ d @ '' @@'' @ post
        \<and> digits a \<and> digits b \<and> digits c \<and> digits d"
  then have h: "hasHunkHeader t" by (simp only: hasHunkHeader_iff)
  with hasHunkHeader_not_blank [OF h] show "isUnifiedDiff t"
    by (simp add: isUnifiedDiff_def)
next
  assume "length (filter (\<lambda>line. prefix ''+'' (trim line) \<or> prefix ''-'' (trim line)) (split_nl t)) < 2
        \<and> \<not> sublist ''diff --git'' t \<and> \<not> sublist ''--- '' t \<and> \<not> sublist ''+++ '' t
        \<and> \<not> (\<exists>pre a b c d post.
              t = pre @ ''@@ -'' @ a @ '','' @ b @ '' +'' @ c @ '','' @ d @ '' @@'' @ post
              \<and> digits a \<and> digits b \<and> digits c \<and> digits d)"
  then have "length (filter plusMinusTest (split_nl t)) < 2"
    and "\<not> includesStr t ''diff --git''" "\<not> includesStr t ''--- ''"
    and "\<not> includesStr t ''+++ ''" and "\<not> hasHunkHeader t"
    unfolding hasHunkHeader_iff includesStr_iff plusMinusTest_def by blast+
  then show "\<not> isUnifiedDiff t"
    by (simp add: isUnifiedDiff_def Let_def)
next
  assume "\<forall>c\<in>set t. isWhiteSpace c"
  then have "trim t = []" by (simp only: trim_Nil_iff)
  then show "\<not> isUnifiedDiff t" by (simp add: isUnifiedDiff_def)
qed

text \<open>
  A text with a strict header inside a sentence; a text with one marked line and a header
  that lacks its counts; a blank text.
\<close>

theorem isUnifiedDiff_classification_witness:
  "isUnifiedDiff ''see @@ -1,2 +3,4 @@ here''
   \<and> \<not> isUnifiedDiff ''+only one marked line\<newline>plain @@ -1 +1 @@ text''
   \<and> \<not> isUnifiedDiff (''  \<newline>'' @ [CHR 0x09])"
proof -
  let ?t1 = "''see @@ -1,2 +3,4 @@ here''"
  let ?t2 = "''+only one marked line\<newline>plain @@ -1 +1 @@ text''"
  let ?t3 = "''  \<newline>'' @ [CHR 0x09]"
  have "?t1 = ''see '' @ ''@@ -'' @ ''1'' @ '','' @ ''2'' @ '' +'' @ ''3'' @ '','' @ ''4''
                @ '' @@'' @ '' here''
        \<and> digits ''1'' \<and> digits ''2'' \<and> digits ''3'' \<and> digits ''4''"
    by (simp add: digits_def isDigit_def)
  then have "\<exists>pre a b c d post.
        ?t1 = pre @ ''@@ -'' @ a @ '','' @ b @ '' +'' @ c @ '','' @ d @ '' @@'' @ post
        \<and> digits a \<and> digits b \<and> digits c \<and> digits d"
    by blast
  with isUnifiedDiff_classification [of ?t1] have w1: "isUnifiedDiff ?t1" by blast
  have c1: "length (filter (\<lambda>line. prefix ''+'' (trim line) \<or> prefix ''-'' (trim line))
              (split_nl ?t2)) < 2"
    by (simp add: LF_def trim_def isWhiteSpace_def)
  have c2: "\<not> sublist ''diff --git'' ?t2" "\<not> sublist ''--- '' ?t2" "\<not> sublist ''+++ '' ?t2"
    by (simp_all add: includesStr_iff [symmetric])
  have c3: "\<not> (\<exists>pre a b c d post.
        ?t2 = pre @ ''@@ -'' @ a @ '','' @ b @ '' +'' @ c @ '','' @ d @ '' @@'' @ post
        \<and> digits a \<and> digits b \<and> digits c \<and> digits d)"
    unfolding hasHunkHeader_iff [symmetric]
    by (simp add: strictHunkAt_def expect_def takeDigits_def isDigit_def)
  from isUnifiedDiff_classification [of ?t2] c1 c2 c3 have w2: "\<not> isUnifiedDiff ?t2"
    by blast
  have "\<forall>c\<in>set ?t3. isWhiteSpace c" by (simp add: isWhiteSpace_def)
  with isUnifiedDiff_classification [of ?t3] have w3: "\<not> isUnifiedDiff ?t3" by blast
  from w1 w2 w3 show ?thesis by blast
qed

section \<open>The engine as a whole\<close>









end
